theory Spec2Isabelle
  imports Main "HOL-Library.Signed_Division"
begin

section \<open>C++ integer arithmetic\<close>

text \<open>
  The sources compute with \<^verbatim>\<open>int64_t\<close> and \<^verbatim>\<open>int\<close>. Matrix extents, bandwidths, sweep
  and step numbers stay far below \<open>2 ^ 63\<close>, so they are modelled as \<open>int\<close>. The C++
  operators \<^verbatim>\<open>/\<close> and \<^verbatim>\<open>%\<close> truncate towards zero: they are \<open>sdiv\<close> and \<open>smod\<close>
  of HOL-Library.Signed_Division, not \<open>div\<close> and \<open>mod\<close>. Division by
  zero, an out-of-range \<^verbatim>\<open>vector::at\<close>, a vector of negative length and a failed
  \<^verbatim>\<open>assert\<close> are values of the type \<open>error\<close>.
\<close>

datatype error = DivisionByZero | LengthError | OutOfRange | AssertionFailed

definition ebind :: "error + 'a \<Rightarrow> ('a \<Rightarrow> error + 'b) \<Rightarrow> error + 'b" where
  "ebind m f = (case m of Inl e \<Rightarrow> Inl e | Inr x \<Rightarrow> f x)"

text \<open>
  Modelled from the spec: \<^verbatim>\<open>ceildiv\<close> is declared in \<^verbatim>\<open>internal/internal_util.hh\<close>, which
  is not among the sources. The spec reads \<^verbatim>\<open>ceildiv(thread_size, 3)\<close> as
  \<open>ceil(thread_count/3)\<close>; on \<^verbatim>\<open>int64_t\<close> that is the integer quotient
  \<^verbatim>\<open>(x + y - 1) / y\<close>, which divides by \<open>y\<close>.
\<close>

definition ceildiv :: "int \<Rightarrow> int \<Rightarrow> error + int" where
  "ceildiv x y = (if y = 0 then Inl DivisionByZero else Inr ((x + y - 1) sdiv y))"

text \<open>\<^verbatim>\<open>x % y\<close> with the division by zero made explicit.\<close>

definition cmod :: "int \<Rightarrow> int \<Rightarrow> error + int" where
  "cmod x y = (if y = 0 then Inl DivisionByZero else Inr (x smod y))"

text \<open>\<^verbatim>\<open>std::vector::at\<close>: bounds-checked access and update.\<close>

definition vec_at :: "'a list \<Rightarrow> int \<Rightarrow> error + 'a" where
  "vec_at xs i = (if 0 \<le> i \<and> i < int (length xs) then Inr (xs ! nat i) else Inl OutOfRange)"

definition vec_store :: "'a list \<Rightarrow> int \<Rightarrow> 'a \<Rightarrow> error + 'a list" where
  "vec_store xs i v =
     (if 0 \<le> i \<and> i < int (length xs) then Inr (xs[nat i := v]) else Inl OutOfRange)"


section \<open>Bulge chasing: one step (\<^verbatim>\<open>hb2td_step\<close>, hb2td.cc)\<close>

text \<open>
  The band Hermitian matrix: its order \<^verbatim>\<open>A.n()\<close> and its entries, which only the
  kernels \<^verbatim>\<open>hebr1\<close>, \<^verbatim>\<open>hebr2\<close>, \<^verbatim>\<open>hebr3\<close> touch. The kernels are declared in
  \<^verbatim>\<open>internal/internal.hh\<close> (not among the sources) and are parameters of the model: each
  takes the slice bounds, the entries and the reflector vectors it is handed by
  reference, and returns the new entries and vectors.
\<close>

record 'm HermitianMatrix =
  A_n :: int
  A_data :: 'm

record ('m, 's) kernels =
  hebr1 :: "int \<times> int \<Rightarrow> 'm \<Rightarrow> 's list \<Rightarrow> 'm \<times> 's list"
  hebr2 :: "int \<times> int \<times> int \<times> int \<Rightarrow> 'm \<Rightarrow> 's list \<Rightarrow> 's list \<Rightarrow> 'm \<times> 's list \<times> 's list"
  hebr3 :: "int \<times> int \<Rightarrow> 'm \<Rightarrow> 's list \<Rightarrow> 'm \<times> 's list"

text \<open>
  \<^verbatim>\<open>Reflectors\<close> is a \<^verbatim>\<open>std::map\<close> from coordinate pairs to vectors. Its
  \<^verbatim>\<open>operator[]\<close> returns a reference to the entry and first inserts an empty vector when
  the key is absent.
\<close>

type_synonym key = "int \<times> int"
type_synonym 's Reflectors = "key \<rightharpoonup> 's list"

definition ref_at :: "'s Reflectors \<Rightarrow> key \<Rightarrow> 's Reflectors \<times> 's list" where
  "ref_at rf k = (case rf k of None \<Rightarrow> (rf(k \<mapsto> []), []) | Some v \<Rightarrow> (rf, v))"

text \<open>Lines 91 and 92: the task of a step and its block number.\<close>

definition hb2td_task :: "int \<Rightarrow> int" where
  "hb2td_task step = (if step = 0 then 0 else (step + 1) smod 2 + 1)"

definition hb2td_block :: "int \<Rightarrow> int" where
  "hb2td_block step = step sdiv 2"

text \<open>
  The \<^verbatim>\<open>switch\<close> of lines 96 to 140 assigns \<open>i\<close> and \<open>j\<close> in each of its three cases;
  \<open>hb2td_coords\<close> gives \<open>(task, block, i, j)\<close>, and \<open>None\<close> when no case label matches.
\<close>

definition hb2td_coords :: "int \<Rightarrow> int \<Rightarrow> int \<Rightarrow> (int \<times> int \<times> int \<times> int) option" where
  "hb2td_coords band sweep step =
     (let task = hb2td_task step; block = hb2td_block step in
      if task = 0 then Some (task, block, sweep, sweep)
      else if task = 1 then
        Some (task, block, (block + 1) * (band - 1) + 1 + sweep, block * (band - 1) + 1 + sweep)
      else if task = 2 then
        Some (task, block, block * (band - 1) + 1 + sweep, block * (band - 1) + 1 + sweep)
      else None)"

text \<open>
  What a step does once its coordinates are known: the reflector entries it takes from
  the store and the kernel it runs on which slice. \<open>Hebr1 k sl\<close> is task 0, producing the
  reflector at \<open>k\<close>; \<open>Hebr2 k1 k2 sl\<close> is task 1, consuming the reflector at \<open>k1\<close> and
  producing the one at \<open>k2\<close>; \<open>Hebr3 k sl\<close> is task 2, consuming the reflector at \<open>k\<close>.
\<close>

datatype task_call =
    Hebr1 key "int \<times> int"
  | Hebr2 key key "int \<times> int \<times> int \<times> int"
  | Hebr3 key "int \<times> int"

definition hb2td_call :: "int \<Rightarrow> int \<Rightarrow> int \<Rightarrow> int \<Rightarrow> task_call option" where
  "hb2td_call n band sweep step =
     (case hb2td_coords band sweep step of
        None \<Rightarrow> None
      | Some (task, block, i, j) \<Rightarrow>
          if i < n \<and> j < n then
            (if task = 0 then
               Some (Hebr1 (i + 1, j) (i, min (i + band - 1) (n - 1)))
             else if task = 1 then
               Some (Hebr2 (i - (band - 1), if step = 1 then j - 1 else j - (band - 1)) (i, j)
                       (i, min (i + band - 2) (n - 1), j, min (j + band - 2) (n - 1)))
             else
               Some (Hebr3 (i, j - (band - 1)) (i, min (i + band - 2) (n - 1))))
          else None)"

text \<open>The key a call consumes (tasks 1 and 2) and the key it produces (tasks 0 and 1).\<close>

fun call_reads :: "task_call \<Rightarrow> key option" where
  "call_reads (Hebr1 k sl) = None"
| "call_reads (Hebr2 k1 k2 sl) = Some k1"
| "call_reads (Hebr3 k sl) = Some k"

fun call_inserts :: "task_call \<Rightarrow> key option" where
  "call_inserts (Hebr1 k sl) = Some k"
| "call_inserts (Hebr2 k1 k2 sl) = Some k2"
| "call_inserts (Hebr3 k sl) = None"

text \<open>
  Running a call: the entries are fetched with \<^verbatim>\<open>operator[]\<close> under the lock, the kernel
  runs on the slice and writes through the references.
\<close>

fun run_call ::
  "('m, 's) kernels \<Rightarrow> task_call \<Rightarrow> 'm HermitianMatrix \<times> 's Reflectors
     \<Rightarrow> 'm HermitianMatrix \<times> 's Reflectors" where
  "run_call K (Hebr1 k sl) (A, rf) =
     (let (rf1, v) = ref_at rf k;
          (a', v') = hebr1 K sl (A_data A) v
      in (A\<lparr>A_data := a'\<rparr>, rf1(k \<mapsto> v')))"
| "run_call K (Hebr2 k1 k2 sl) (A, rf) =
     (let (rf1, v1) = ref_at rf k1;
          (rf2, v2) = ref_at rf1 k2;
          (a', v1', v2') = hebr2 K sl (A_data A) v1 v2
      in (A\<lparr>A_data := a'\<rparr>, rf2(k1 \<mapsto> v1', k2 \<mapsto> v2')))"
| "run_call K (Hebr3 k sl) (A, rf) =
     (let (rf1, v) = ref_at rf k;
          (a', v') = hebr3 K sl (A_data A) v
      in (A\<lparr>A_data := a'\<rparr>, rf1(k \<mapsto> v')))"

definition hb2td_step ::
  "('m, 's) kernels \<Rightarrow> int \<Rightarrow> int \<Rightarrow> int \<Rightarrow> 'm HermitianMatrix \<times> 's Reflectors
     \<Rightarrow> 'm HermitianMatrix \<times> 's Reflectors" where
  "hb2td_step K band sweep step st =
     (case hb2td_call (A_n (fst st)) band sweep step of
        None \<Rightarrow> st
      | Some c \<Rightarrow> run_call K c st)"

text \<open>A sequence of step invocations \<open>(sweep, step)\<close>, in the order they run.\<close>

fun hb2td_steps ::
  "('m, 's) kernels \<Rightarrow> int \<Rightarrow> (int \<times> int) list \<Rightarrow> 'm HermitianMatrix \<times> 's Reflectors
     \<Rightarrow> 'm HermitianMatrix \<times> 's Reflectors" where
  "hb2td_steps K band [] st = st"
| "hb2td_steps K band ((sweep, step) # cs) st =
     hb2td_steps K band cs (hb2td_step K band sweep step st)"


section \<open>Bulge chasing: the worker loop (\<^verbatim>\<open>hb2td_run\<close>) and the parallel region (\<^verbatim>\<open>hb2td\<close>)\<close>

text \<open>
  \<^verbatim>\<open>hb2td\<close> starts \<^verbatim>\<open>thread_size\<close> workers, each running \<^verbatim>\<open>hb2td_run\<close> with its own
  \<^verbatim>\<open>thread_rank\<close> on the shared matrix, reflector store and progress table. A worker is
  modelled by its local variables and a program counter, and one transition of a worker
  is one evaluation of a loop condition, one load of an atomic counter in a wait loop,
  the call of \<^verbatim>\<open>hb2td_step\<close>, or the store that marks the step as done. The parallel
  region is the interleaving of the workers' transitions (the atomics are sequentially
  consistent, the store is accessed under the lock).
\<close>

datatype pc =
    PassHead    \<comment> \<open>line 186: test of the pass loop\<close>
  | StepHead    \<comment> \<open>line 192: test of the step loop\<close>
  | SweepHead   \<comment> \<open>line 193: test of the sweep loop, then lines 194 to 204\<close>
  | WaitCross   \<comment> \<open>line 202: spinning on \<^verbatim>\<open>progress.at(sweep-1)\<close>\<close>
  | WaitIntra   \<comment> \<open>line 206: spinning on \<^verbatim>\<open>progress.at(sweep)\<close>\<close>
  | Exec        \<comment> \<open>line 209: about to call \<^verbatim>\<open>hb2td_step\<close>\<close>
  | Mark        \<comment> \<open>line 213: about to store the step in the progress table\<close>
  | Finished

record worker =
  w_rank :: int
  w_start_thread :: int
  w_pass :: int
  w_sweep_end :: int
  w_nsteps_pass :: int
  w_step :: int
  w_sweep :: int
  w_depend :: int
  w_pc :: pc

record run_args =
  r_band :: int
  r_diag_len :: int
  r_pass_size :: int
  r_thread_size :: int

record ('m, 's) shared =
  s_A :: "'m HermitianMatrix"
  s_reflectors :: "'s Reflectors"
  s_progress :: "int list"

text \<open>Lines 189, 194 and 195: \<^verbatim>\<open>2*ceildiv(diag_len - 1 - sweep, band-1) - 1\<close>.\<close>

definition nsteps :: "run_args \<Rightarrow> int \<Rightarrow> error + int" where
  "nsteps R sweep =
     ebind (ceildiv (r_diag_len R - 1 - sweep) (r_band R - 1)) (\<lambda>c. Inr (2 * c - 1))"

definition worker_step ::
  "('m, 's) kernels \<Rightarrow> run_args \<Rightarrow> ('m, 's) shared \<Rightarrow> worker
     \<Rightarrow> error + (('m, 's) shared \<times> worker)" where
  "worker_step K R sh w =
     (case w_pc w of
        PassHead \<Rightarrow>
          if w_pass w < r_diag_len R - 2 then
            ebind (nsteps R (w_pass w)) (\<lambda>nsteps_pass.
            ebind (cmod (w_rank w - w_start_thread w + r_thread_size R) (r_thread_size R))
              (\<lambda>step_begin.
            Inr (sh, w\<lparr>w_sweep_end := min (w_pass w + r_pass_size R) (r_diag_len R - 2),
                       w_nsteps_pass := nsteps_pass,
                       w_step := step_begin,
                       w_pc := StepHead\<rparr>)))
          else Inr (sh, w\<lparr>w_pc := Finished\<rparr>)
      | StepHead \<Rightarrow>
          if w_step w < w_nsteps_pass w then
            Inr (sh, w\<lparr>w_sweep := w_pass w, w_pc := SweepHead\<rparr>)
          else
            ebind (cmod (w_start_thread w + w_nsteps_pass w) (r_thread_size R)) (\<lambda>st.
            Inr (sh, w\<lparr>w_start_thread := st,
                       w_pass := w_pass w + r_pass_size R,
                       w_pc := PassHead\<rparr>))
      | SweepHead \<Rightarrow>
          if w_sweep w < w_sweep_end w then
            ebind (nsteps R (w_sweep w)) (\<lambda>nsteps_sweep.
            ebind (nsteps R (w_sweep w - 1)) (\<lambda>nsteps_last.
            if w_step w < nsteps_sweep then
              (if w_sweep w > 0 then
                 Inr (sh, w\<lparr>w_depend := min (w_step w + 2) (nsteps_last - 1),
                            w_pc := WaitCross\<rparr>)
               else if w_step w > 0 then Inr (sh, w\<lparr>w_pc := WaitIntra\<rparr>)
               else Inr (sh, w\<lparr>w_pc := Exec\<rparr>))
            else Inr (sh, w\<lparr>w_sweep := w_sweep w + 1\<rparr>)))
          else Inr (sh, w\<lparr>w_step := w_step w + r_thread_size R, w_pc := StepHead\<rparr>)
      | WaitCross \<Rightarrow>
          ebind (vec_at (s_progress sh) (w_sweep w - 1)) (\<lambda>p.
          if p < w_depend w then Inr (sh, w)
          else if w_step w > 0 then Inr (sh, w\<lparr>w_pc := WaitIntra\<rparr>)
          else Inr (sh, w\<lparr>w_pc := Exec\<rparr>))
      | WaitIntra \<Rightarrow>
          ebind (vec_at (s_progress sh) (w_sweep w)) (\<lambda>p.
          if p < w_step w - 1 then Inr (sh, w)
          else Inr (sh, w\<lparr>w_pc := Exec\<rparr>))
      | Exec \<Rightarrow>
          (let (A', rf') =
                 hb2td_step K (r_band R) (w_sweep w) (w_step w) (s_A sh, s_reflectors sh)
           in Inr (sh\<lparr>s_A := A', s_reflectors := rf'\<rparr>, w\<lparr>w_pc := Mark\<rparr>))
      | Mark \<Rightarrow>
          ebind (vec_store (s_progress sh) (w_sweep w) (w_step w)) (\<lambda>p'.
          Inr (sh\<lparr>s_progress := p'\<rparr>, w\<lparr>w_sweep := w_sweep w + 1, w_pc := SweepHead\<rparr>))
      | Finished \<Rightarrow> Inr (sh, w))"

text \<open>The parallel region: worker \<open>t\<close> of the list takes one transition.\<close>

record ('m, 's) system =
  sys_shared :: "('m, 's) shared"
  sys_workers :: "worker list"

definition sys_step ::
  "('m, 's) kernels \<Rightarrow> run_args \<Rightarrow> nat \<Rightarrow> ('m, 's) system \<Rightarrow> error + ('m, 's) system" where
  "sys_step K R t \<sigma> =
     (if t < length (sys_workers \<sigma>) then
        ebind (worker_step K R (sys_shared \<sigma>) (sys_workers \<sigma> ! t)) (\<lambda>(sh', w').
        Inr \<lparr>sys_shared = sh', sys_workers = (sys_workers \<sigma>)[t := w']\<rparr>)
      else Inr \<sigma>)"

fun run_sched ::
  "('m, 's) kernels \<Rightarrow> run_args \<Rightarrow> nat list \<Rightarrow> ('m, 's) system \<Rightarrow> error + ('m, 's) system" where
  "run_sched K R [] \<sigma> = Inr \<sigma>"
| "run_sched K R (t # ts) \<sigma> = ebind (sys_step K R t \<sigma>) (run_sched K R ts)"

text \<open>
  \<^verbatim>\<open>hb2td\<close>, lines 231 to 266: the progress table of \<^verbatim>\<open>diag_len-2\<close> counters, each set
  to \<open>-1\<close>, the empty reflector store, \<^verbatim>\<open>pass_size = ceildiv(thread_size, 3)\<close>, and one
  worker per rank, at the top of \<^verbatim>\<open>hb2td_run\<close> with \<^verbatim>\<open>start_thread = 0\<close> and
  \<^verbatim>\<open>pass = 0\<close>. \<^verbatim>\<open>thread_size\<close> is what \<^verbatim>\<open>omp_get_max_threads()\<close> returns. A
  \<^verbatim>\<open>std::vector\<close> cannot be constructed with a negative length.
\<close>

definition init_worker :: "int \<Rightarrow> worker" where
  "init_worker rank =
     \<lparr>w_rank = rank, w_start_thread = 0, w_pass = 0, w_sweep_end = 0, w_nsteps_pass = 0,
      w_step = 0, w_sweep = 0, w_depend = 0, w_pc = PassHead\<rparr>"

definition hb2td_init ::
  "'m HermitianMatrix \<Rightarrow> int \<Rightarrow> int \<Rightarrow> error + (run_args \<times> ('m, 's) system)" where
  "hb2td_init A band thread_size =
     (let diag_len = A_n A in
      if diag_len - 2 < 0 then Inl LengthError
      else
        ebind (ceildiv thread_size 3) (\<lambda>pass_size.
        Inr (\<lparr>r_band = band, r_diag_len = diag_len, r_pass_size = pass_size,
              r_thread_size = thread_size\<rparr>,
             \<lparr>sys_shared = \<lparr>s_A = A, s_reflectors = Map.empty,
                             s_progress = replicate (nat (diag_len - 2)) (- 1)\<rparr>,
              sys_workers = map (\<lambda>r. init_worker (int r)) [0 ..< nat thread_size]\<rparr>)))"

text \<open>The state of the parallel region after the transitions of a schedule.\<close>

definition hb2td_exec ::
  "('m, 's) kernels \<Rightarrow> 'm HermitianMatrix \<Rightarrow> int \<Rightarrow> int \<Rightarrow> nat list
     \<Rightarrow> error + ('m, 's) system" where
  "hb2td_exec K A band thread_size sched =
     ebind (hb2td_init A band thread_size) (\<lambda>(R, \<sigma>). run_sched K R sched \<sigma>)"


section \<open>Applying Q of an LQ factorisation (\<^verbatim>\<open>unmlq\<close>, internal_unmlq.cc)\<close>

datatype Side = Left | Right
datatype Op = NoTrans | Trans | ConjTrans
datatype Target = HostTask | HostNest | HostBatch | Devices

text \<open>
  Modelled from the spec: the class \<^verbatim>\<open>Matrix\<close> (slate/Matrix.hh) is not among the
  sources. Following the spec's Tile-Matrix, a matrix is a grid of \<^verbatim>\<open>mt()\<close> by
  \<^verbatim>\<open>nt()\<close> tiles with their row and column extents, an ownership query per tile
  coordinate, and the set of coordinates whose tile is live in its storage. Views
  (\<^verbatim>\<open>sub\<close>, \<^verbatim>\<open>slice\<close>) share the storage of the matrix they are taken from.
\<close>

record Matrix =
  M_mt :: int
  M_nt :: int
  M_tileMb :: "int \<Rightarrow> int"
  M_tileNb :: "int \<Rightarrow> int"
  M_tileIsLocal :: "int \<Rightarrow> int \<Rightarrow> bool"
  M_tiles :: "(int \<times> int) set"

text \<open>
  \<^verbatim>\<open>M.sub(i1, i2, j1, j2).insertLocalTiles()\<close>: every tile of the view that the rank owns
  becomes live.
\<close>

definition insertLocalTiles :: "Matrix \<Rightarrow> int \<Rightarrow> int \<Rightarrow> int \<Rightarrow> int \<Rightarrow> (int \<times> int) set" where
  "insertLocalTiles M i1 i2 j1 j2 =
     M_tiles M \<union> set [(i, j). i \<leftarrow> [i1..i2], j \<leftarrow> [j1..j2], M_tileIsLocal M i j]"

text \<open>
  The loop of lines 267 to 271 over the tiles \<open>(0, j)\<close> of the view \<^verbatim>\<open>Wr\<close>, which are
  the tiles \<open>(first, j)\<close> of \<^verbatim>\<open>W\<close>, and the loop of lines 443 to 447 over the tiles
  \<open>(i, 0)\<close> of \<^verbatim>\<open>Wc\<close>, the tiles \<open>(i, first)\<close> of \<^verbatim>\<open>W\<close>.
\<close>

fun erase_row :: "Matrix \<Rightarrow> int \<Rightarrow> int list \<Rightarrow> (int \<times> int) set \<Rightarrow> (int \<times> int) set" where
  "erase_row W first [] ts = ts"
| "erase_row W first (j # js) ts =
     erase_row W first js (if M_tileIsLocal W first j then ts - {(first, j)} else ts)"

fun erase_col :: "Matrix \<Rightarrow> int \<Rightarrow> int list \<Rightarrow> (int \<times> int) set \<Rightarrow> (int \<times> int) set" where
  "erase_col W first [] ts = ts"
| "erase_col W first (i # is) ts =
     erase_col W first is (if M_tileIsLocal W i first then ts - {(i, first)} else ts)"

text \<open>
  The tile kernels and transfers (\<^verbatim>\<open>internal::copy\<close>, \<^verbatim>\<open>trmm\<close>, \<^verbatim>\<open>gemm\<close>,
  \<^verbatim>\<open>geadd\<close>, \<^verbatim>\<open>tileGetAllForWriting\<close>, \<^verbatim>\<open>tileGetAndHoldAllOnDevices\<close>) are not among the
  sources either. They are the only way \<^verbatim>\<open>unmlq\<close> touches the entries of \<open>C\<close>, \<open>V\<close>,
  \<open>T\<close> and \<open>W\<close>, so the model returns the calls in the order they are issued, each with
  its target, its scalar \<open>alpha\<close> where it has one, and its operands.
\<close>

datatype operand =
    V0 | V0H | V0b | V0bH | V1 int | V1H int | V1_from int | V1H_from int
  | T0 | T0H | C0 | C0b | Ci int | C1_from int | Wk

datatype kcall =
    TileGetAllForWriting operand
  | TileGetAndHoldAllOnDevices operand
  | Copy operand operand
  | Trmm Side operand operand
  | Gemm Target int operand operand operand
  | Geadd int operand operand

text \<open>
  What a call leaves behind: the calls it issued, the live tiles of \<open>W\<close> while the
  kernels ran (after \<^verbatim>\<open>insertLocalTiles\<close>), and the live tiles of \<open>W\<close> at return.
\<close>

record unmlq_result =
  u_calls :: "kcall list"
  u_W_work :: "(int \<times> int) set"
  u_W_tiles :: "(int \<times> int) set"

text \<open>
  Modelled from the spec: \<^verbatim>\<open>M.slice(0, r, 0, c)\<close> (class \<^verbatim>\<open>Matrix\<close>, not among the
  sources) is the view of the leading element rows and columns of \<open>M\<close>; of the tiles of
  \<open>M\<close> it keeps those that hold one of these elements. \<open>slice_tiles ext js x\<close> is the
  number of leading tiles of \<open>js\<close>, of extents \<open>ext\<close>, that hold the first \<open>x\<close>
  elements; \<open>extent ext js\<close> is the number of elements the tiles \<open>js\<close> span
  (\<^verbatim>\<open>C0.n()\<close>, \<^verbatim>\<open>C0.m()\<close>).
\<close>

fun slice_tiles :: "(int \<Rightarrow> int) \<Rightarrow> int list \<Rightarrow> int \<Rightarrow> int" where
  "slice_tiles ext [] x = 0"
| "slice_tiles ext (j # js) x = (if x \<le> 0 then 0 else 1 + slice_tiles ext js (x - ext j))"

definition extent :: "(int \<Rightarrow> int) \<Rightarrow> int list \<Rightarrow> int" where
  "extent ext js = sum_list (map ext js)"

text \<open>
  The kernels and transfers of the left case, lines 151 to 263, in the order they are
  issued.
\<close>

definition unmlq_left_calls :: "Target \<Rightarrow> Op \<Rightarrow> bool \<Rightarrow> int list \<Rightarrow> kcall list" where
  "unmlq_left_calls target op trapezoid row_indices =
     [TileGetAllForWriting C0,
      Copy C0 Wk,
      Trmm Left V0 Wk]
     @ (if trapezoid then [Gemm HostTask 1 V0b C0b Wk] else [])
     @ concat (map (\<lambda>row.
         (if target = Devices then [TileGetAndHoldAllOnDevices (Ci row)] else [])
         @ [Gemm target 1 (V1 row) (Ci row) Wk]) (tl row_indices))
     @ [Trmm Left (if op = NoTrans then T0H else T0) Wk]
     @ (if length row_indices > 1
        then [Gemm target (- 1) (V1H_from (row_indices ! 1)) Wk (C1_from (row_indices ! 1))]
        else [])
     @ (if trapezoid then [Gemm HostTask (- 1) V0bH Wk C0b] else [])
     @ [Trmm Left V0H Wk,
        Geadd (- 1) Wk C0]"

text \<open>
  The left case, lines 105 to 271. \<^verbatim>\<open>Wr\<close> is the block row \<open>first\<close> of \<open>W\<close>, with
  \<open>nt\<close> tile columns; in the trapezoid case it is re-sliced (line 182) to its first
  \<^verbatim>\<open>C0.n()\<close> element columns, and the loop that frees the workspace runs over the tile
  columns \<^verbatim>\<open>Wr.nt()\<close> of that view.
\<close>

definition unmlq_left ::
  "Target \<Rightarrow> Op \<Rightarrow> Matrix \<Rightarrow> Matrix \<Rightarrow> Matrix \<Rightarrow> Matrix \<Rightarrow> error + unmlq_result" where
  "unmlq_left target op V T C W =
     (let mt = M_mt C; nt = M_nt C in
      if M_nt V \<noteq> mt then Inl AssertionFailed
      else
        let row_indices = [i \<leftarrow> [0..mt - 1]. list_ex (\<lambda>j. M_tileIsLocal C i j) [0..nt - 1]] in
        if length row_indices < 1 then
          Inr \<lparr>u_calls = [], u_W_work = M_tiles W, u_W_tiles = M_tiles W\<rparr>
        else
          let first = row_indices ! 0 in
          if \<not> first < mt then Inl AssertionFailed
          else if \<not> first \<ge> 0 then Inl AssertionFailed
          else
            let W1 = insertLocalTiles W first first 0 (nt - 1);
                mb0 = M_tileMb V 0;
                nb = M_tileNb V first;
                mb = (if mb0 > nb then nb else mb0);
                trapezoid = (mb < nb);
                n = extent (M_tileNb C) [0..nt - 1];
                Wr_nt = (if trapezoid then slice_tiles (M_tileNb W) [0..nt - 1] n else nt)
            in Inr \<lparr>u_calls = unmlq_left_calls target op trapezoid row_indices,
                    u_W_work = W1,
                    u_W_tiles = erase_row W first [0..Wr_nt - 1] W1\<rparr>)"

text \<open>The kernels and transfers of the right case, lines 327 to 439.\<close>

definition unmlq_right_calls :: "Target \<Rightarrow> Op \<Rightarrow> bool \<Rightarrow> int list \<Rightarrow> kcall list" where
  "unmlq_right_calls target op trapezoid col_indices =
     [TileGetAllForWriting C0,
      Copy C0 Wk,
      Trmm Right V0H Wk]
     @ (if trapezoid then [Gemm HostTask 1 C0b V0bH Wk] else [])
     @ concat (map (\<lambda>col.
         (if target = Devices then [TileGetAndHoldAllOnDevices (Ci col)] else [])
         @ [Gemm target 1 (Ci col) (V1H col) Wk]) (tl col_indices))
     @ [Trmm Right (if op = NoTrans then T0H else T0) Wk]
     @ (if length col_indices > 1
        then [Gemm target (- 1) Wk (V1_from (col_indices ! 1)) (C1_from (col_indices ! 1))]
        else [])
     @ (if trapezoid then [Gemm HostTask (- 1) Wk V0b C0b] else [])
     @ [Trmm Right V0 Wk,
        Geadd (- 1) Wk C0]"

text \<open>
  The right case, lines 282 to 447. \<^verbatim>\<open>Wc\<close> is the block column \<open>first\<close> of \<open>W\<close>, with
  \<open>mt\<close> tile rows; in the trapezoid case it is re-sliced (line 358) to its first
  \<^verbatim>\<open>C0.m()\<close> element rows, and the loop that frees the workspace runs over the tile rows
  \<^verbatim>\<open>Wc.mt()\<close> of that view.
\<close>

definition unmlq_right ::
  "Target \<Rightarrow> Op \<Rightarrow> Matrix \<Rightarrow> Matrix \<Rightarrow> Matrix \<Rightarrow> Matrix \<Rightarrow> error + unmlq_result" where
  "unmlq_right target op V T C W =
     (let mt = M_mt C; nt = M_nt C in
      if M_nt V \<noteq> nt then Inl AssertionFailed
      else
        let col_indices = [j \<leftarrow> [0..nt - 1]. list_ex (\<lambda>i. M_tileIsLocal C i j) [0..mt - 1]] in
        if length col_indices < 1 then
          Inr \<lparr>u_calls = [], u_W_work = M_tiles W, u_W_tiles = M_tiles W\<rparr>
        else
          let first = col_indices ! 0 in
          if \<not> first < nt then Inl AssertionFailed
          else if \<not> first \<ge> 0 then Inl AssertionFailed
          else
            let W1 = insertLocalTiles W 0 (mt - 1) first first;
                mb0 = M_tileMb V 0;
                nb = M_tileNb V first;
                mb = (if mb0 > nb then nb else mb0);
                trapezoid = (mb < nb);
                m = extent (M_tileMb C) [0..mt - 1];
                Wc_mt = (if trapezoid then slice_tiles (M_tileMb W) [0..mt - 1] m else mt)
            in Inr \<lparr>u_calls = unmlq_right_calls target op trapezoid col_indices,
                    u_W_work = W1,
                    u_W_tiles = erase_col W first [0..Wc_mt - 1] W1\<rparr>)"

text \<open>Lines 84 to 96: the assertions on the shapes, then the dispatch on the side.\<close>

definition unmlq ::
  "Target \<Rightarrow> Side \<Rightarrow> Op \<Rightarrow> Matrix \<Rightarrow> Matrix \<Rightarrow> Matrix \<Rightarrow> Matrix \<Rightarrow> error + unmlq_result" where
  "unmlq target side op V T C W =
     (let mt = M_mt C; nt = M_nt C in
      if \<not> mt \<ge> 1 then Inl AssertionFailed
      else if \<not> nt \<ge> 1 then Inl AssertionFailed
      else if \<not> M_mt V = 1 then Inl AssertionFailed
      else if \<not> M_mt W = mt then Inl AssertionFailed
      else if \<not> M_nt W = nt then Inl AssertionFailed
      else if side = Left then unmlq_left target op V T C W
      else unmlq_right target op V T C W)"

text \<open>
  The shape precondition in the words of the spec: \<open>C\<close> has at least one tile row and one
  tile column; \<open>V\<close> spans exactly one block row matching the tile-row count of \<open>C\<close> in
  the left case, or one block column matching the tile-column count of \<open>C\<close> in the right
  case; the tile grid of \<open>W\<close> equals that of \<open>C\<close>.
\<close>

definition spec_unmlq_precondition :: "Side \<Rightarrow> Matrix \<Rightarrow> Matrix \<Rightarrow> Matrix \<Rightarrow> bool" where
  "spec_unmlq_precondition side V C W =
     (M_mt C \<ge> 1 \<and> M_nt C \<ge> 1
      \<and> (if side = Left then M_mt V = 1 \<and> M_nt V = M_mt C
         else M_nt V = 1 \<and> M_mt V = M_nt C)
      \<and> M_mt W = M_mt C \<and> M_nt W = M_nt C)"


section \<open>The GPU-aware MPI flag (\<^verbatim>\<open>GPU_Aware_MPI\<close>, config.hh)\<close>

text \<open>
  The process environment maps variable names to values; \<^verbatim>\<open>getenv\<close> returns a null
  pointer for a variable that is not set. The function-local static of \<^verbatim>\<open>get()\<close> is
  \<open>None\<close> until the first call of \<^verbatim>\<open>get()\<close> constructs it, and holds the field
  \<^verbatim>\<open>gpu_aware_mpi_\<close> from then on.
\<close>

type_synonym environment = "string \<rightharpoonup> string"
type_synonym singleton = "bool option"

definition GPU_Aware_MPI_constructor :: "environment \<Rightarrow> bool" where
  "GPU_Aware_MPI_constructor env =
     (case env ''SLATE_GPU_AWARE_MPI'' of
        None \<Rightarrow> False
      | Some e \<Rightarrow> e = '''' \<or> e = ''1'')"

definition GPU_Aware_MPI_get :: "environment \<Rightarrow> singleton \<Rightarrow> bool" where
  "GPU_Aware_MPI_get env st = (case st of None \<Rightarrow> GPU_Aware_MPI_constructor env | Some b \<Rightarrow> b)"

text \<open>\<^verbatim>\<open>bool gpu_aware_mpi()\<close>: the value and the state of the singleton afterwards.\<close>

definition gpu_aware_mpi :: "environment \<Rightarrow> singleton \<Rightarrow> bool \<times> singleton" where
  "gpu_aware_mpi env st = (let b = GPU_Aware_MPI_get env st in (b, Some b))"

text \<open>\<^verbatim>\<open>void gpu_aware_mpi( bool value )\<close>: \<^verbatim>\<open>get()\<close>, then the assignment.\<close>

definition gpu_aware_mpi_set :: "bool \<Rightarrow> environment \<Rightarrow> singleton \<Rightarrow> singleton" where
  "gpu_aware_mpi_set val env st = (let b = GPU_Aware_MPI_get env st in Some val)"

text \<open>Successive queries, each under the environment of its time.\<close>

fun gpu_queries :: "singleton \<Rightarrow> environment list \<Rightarrow> bool list" where
  "gpu_queries st [] = []"
| "gpu_queries st (env # envs) =
     (let (b, st') = gpu_aware_mpi env st in b # gpu_queries st' envs)"


section \<open>Example inputs\<close>

text \<open>Kernels on a matrix without entries, and tile matrices of a given grid.\<close>

definition example_kernels :: "(unit, int) kernels" where
  "example_kernels =
     \<lparr>hebr1 = (\<lambda>sl a v. (a, [1])),
      hebr2 = (\<lambda>sl a v1 v2. (a, v1, [2])),
      hebr3 = (\<lambda>sl a v. (a, v))\<rparr>"

definition example_matrix :: "int \<Rightarrow> int \<Rightarrow> bool \<Rightarrow> Matrix" where
  "example_matrix mt nt loc =
     \<lparr>M_mt = mt, M_nt = nt, M_tileMb = (\<lambda>i. 4), M_tileNb = (\<lambda>j. 4),
      M_tileIsLocal = (\<lambda>i j. loc), M_tiles = {}\<rparr>"





section \<open>Properties of a step\<close>

lemma hb2td_task_odd: "odd step \<Longrightarrow> hb2td_task step = 1"
  by (auto simp: hb2td_task_def smod_int_alt_def)

lemma hb2td_task_even: "even step \<Longrightarrow> 2 \<le> step \<Longrightarrow> hb2td_task step = 2"
proof -
  assume e: "even step" and g: "2 \<le> step"
  have "\<bar>step + 1\<bar> mod 2 = 1" using e g by presburger
  moreover have "sgn (step + 1) = 1" using g by simp
  ultimately show ?thesis using g by (simp add: hb2td_task_def smod_int_alt_def)
qed

text \<open>
  C2. For every sweep and step: the block number is \<^verbatim>\<open>step/2\<close>; step 0 is task 0 at
  \<open>i = j = sweep\<close>; every odd step is task 1 at \<open>i = (block+1)(band-1)+1+sweep\<close>,
  \<open>j = block(band-1)+1+sweep\<close>; every even step from 2 on is task 2 at
  \<open>i = j = block(band-1)+1+sweep\<close>; and for a step other than 0 the task is
  \<open>(step+1) mod 2 + 1\<close>, where on the steps \<open>\<ge> 0\<close> the truncating operators of C++
  agree with \<open>div\<close> and \<open>mod\<close>.
\<close>

theorem hb2td_step_classification:
  "hb2td_block step = step sdiv 2
   \<and> (0 \<le> step \<longrightarrow> hb2td_block step = step div 2)
   \<and> (step = 0 \<longrightarrow> hb2td_coords band sweep step = Some (0, 0, sweep, sweep))
   \<and> (odd step \<longrightarrow>
        hb2td_coords band sweep step =
          Some (1, hb2td_block step,
                (hb2td_block step + 1) * (band - 1) + 1 + sweep,
                hb2td_block step * (band - 1) + 1 + sweep))
   \<and> (even step \<and> 2 \<le> step \<longrightarrow>
        hb2td_coords band sweep step =
          Some (2, hb2td_block step,
                hb2td_block step * (band - 1) + 1 + sweep,
                hb2td_block step * (band - 1) + 1 + sweep))
   \<and> (0 < step \<longrightarrow> hb2td_task step = (step + 1) mod 2 + 1)"
proof -
  have b: "0 \<le> step \<longrightarrow> hb2td_block step = step div 2"
    by (simp add: hb2td_block_def signed_divide_int_def sgn_if)
  have z: "step = 0 \<longrightarrow> hb2td_coords band sweep step = Some (0, 0, sweep, sweep)"
    by (simp add: hb2td_coords_def hb2td_task_def hb2td_block_def)
  have o: "odd step \<longrightarrow>
        hb2td_coords band sweep step =
          Some (1, hb2td_block step,
                (hb2td_block step + 1) * (band - 1) + 1 + sweep,
                hb2td_block step * (band - 1) + 1 + sweep)"
    by (simp add: hb2td_coords_def hb2td_task_odd Let_def)
  have e: "even step \<and> 2 \<le> step \<longrightarrow>
        hb2td_coords band sweep step =
          Some (2, hb2td_block step,
                hb2td_block step * (band - 1) + 1 + sweep,
                hb2td_block step * (band - 1) + 1 + sweep)"
    by (simp add: hb2td_coords_def hb2td_task_even Let_def)
  have t: "0 < step \<longrightarrow> hb2td_task step = (step + 1) mod 2 + 1"
    by (simp add: hb2td_task_def smod_int_alt_def sgn_if)
  show ?thesis using b z o e t by (simp add: hb2td_block_def)
qed

theorem hb2td_step_classification_witness:
  "hb2td_coords 4 2 0 = Some (0, 0, 2, 2)
   \<and> hb2td_coords 4 2 3 = Some (1, 1, 9, 6)
   \<and> hb2td_coords 4 2 6 = Some (2, 3, 12, 12)
   \<and> hb2td_block 7 = 3 \<and> hb2td_task 7 = 1"
  using hb2td_step_classification [of 0 4 2] hb2td_step_classification [of 3 4 2]
    hb2td_step_classification [of 6 4 2] hb2td_step_classification [of 7 4 2]
  by (simp add: hb2td_block_def signed_divide_int_def)


section \<open>Reflector keys within a sweep, out-of-range steps, band 1\<close>


lemma gpu_queries_Some: "gpu_queries (Some b) envs = replicate (length envs) b"
  by (induction envs) (simp_all add: gpu_aware_mpi_def GPU_Aware_MPI_get_def)

text \<open>
  C10. The first query of a process returns true exactly when \<^verbatim>\<open>SLATE_GPU_AWARE_MPI\<close> is
  set, at that time, to the empty string or to \<^verbatim>\<open>1\<close>; every later query returns that
  same value whatever the environment has become; and once the setter has been called,
  the queries return the value it stored.
\<close>

theorem gpu_aware_mpi_probe_cached:
  "fst (gpu_aware_mpi env None)
     = (env ''SLATE_GPU_AWARE_MPI'' = Some '''' \<or> env ''SLATE_GPU_AWARE_MPI'' = Some ''1'')
   \<and> gpu_queries (snd (gpu_aware_mpi env None)) envs
       = replicate (length envs) (fst (gpu_aware_mpi env None))
   \<and> gpu_queries (gpu_aware_mpi_set val env' st) envs = replicate (length envs) val"
  by (auto simp: gpu_aware_mpi_def GPU_Aware_MPI_get_def GPU_Aware_MPI_constructor_def
      gpu_aware_mpi_set_def gpu_queries_Some Let_def split: option.splits)







lemma A_n_run_call: "A_n (fst (run_call K c st)) = A_n (fst st)"
  by (cases c; cases st) (simp_all add: Let_def split: prod.splits)

lemma A_n_hb2td_step: "A_n (fst (hb2td_step K band sweep step st)) = A_n (fst st)"
  by (simp add: hb2td_step_def A_n_run_call split: option.splits)

lemma dom_ref_at: "dom (fst (ref_at rf k)) = insert k (dom rf)"
  by (auto simp: ref_at_def split: option.splits)

lemma dom_run_call:
  "dom (snd (run_call K c (A, rf)))
     = dom rf \<union> set_option (call_reads c) \<union> set_option (call_inserts c)"
  by (cases c) (auto simp: Let_def dom_ref_at case_prod_beta)

lemma dom_hb2td_step_mono: "dom (snd st) \<subseteq> dom (snd (hb2td_step K band sweep step st))"
  by (cases st) (auto simp: hb2td_step_def dom_run_call split: option.splits)

lemma dom_hb2td_step_inserts:
  "hb2td_call (A_n (fst st)) band sweep step = Some c \<Longrightarrow> call_inserts c = Some key \<Longrightarrow>
   key \<in> dom (snd (hb2td_step K band sweep step st))"
  by (cases st) (simp add: hb2td_step_def dom_run_call)

lemma A_n_hb2td_steps: "A_n (fst (hb2td_steps K band cs st)) = A_n (fst st)"
proof (induction cs arbitrary: st)
  case Nil
  show ?case by simp
next
  case (Cons x cs)
  obtain k s where x: "x = (k, s)" by (cases x)
  show ?case by (simp add: x Cons.IH A_n_hb2td_step)
qed

lemma dom_hb2td_steps_mono: "dom (snd st) \<subseteq> dom (snd (hb2td_steps K band cs st))"
proof (induction cs arbitrary: st)
  case Nil
  show ?case by simp
next
  case (Cons c cs)
  obtain k s where c: "c = (k, s)" by (cases c)
  have "dom (snd st) \<subseteq> dom (snd (hb2td_step K band k s st))"
    by (rule dom_hb2td_step_mono)
  also have "\<dots> \<subseteq> dom (snd (hb2td_steps K band cs (hb2td_step K band k s st)))"
    by (rule Cons.IH)
  finally show ?case by (simp add: c)
qed

lemma dom_hb2td_steps_inserts:
  "(k, s) \<in> set cs \<Longrightarrow> hb2td_call (A_n (fst st)) band k s = Some c \<Longrightarrow>
   call_inserts c = Some key \<Longrightarrow> key \<in> dom (snd (hb2td_steps K band cs st))"
proof (induction cs arbitrary: st)
  case Nil
  then show ?case by simp
next
  case (Cons x cs)
  obtain k' s' where x: "x = (k', s')" by (cases x)
  show ?case
  proof (cases "x = (k, s)")
    case True
    have "key \<in> dom (snd (hb2td_step K band k s st))"
      using Cons.prems(2,3) by (rule dom_hb2td_step_inserts)
    then show ?thesis
      using dom_hb2td_steps_mono [of "hb2td_step K band k s st" K band cs] True by auto
  next
    case False
    then have "(k, s) \<in> set cs" using Cons.prems(1) by simp
    moreover have "hb2td_call (A_n (fst (hb2td_step K band k' s' st))) band k s = Some c"
      using Cons.prems(2) by (simp add: A_n_hb2td_step)
    ultimately have "key \<in> dom (snd (hb2td_steps K band cs (hb2td_step K band k' s' st)))"
      using Cons.prems(3) by (rule Cons.IH)
    then show ?thesis by (simp add: x)
  qed
qed

lemma hb2td_block_nonneg: "0 \<le> s \<Longrightarrow> hb2td_block s = s div 2"
  by (simp add: hb2td_block_def signed_divide_int_def sgn_if)

lemma hb2td_coords_odd:
  "odd s \<Longrightarrow> 1 \<le> s \<Longrightarrow>
   hb2td_coords band k s =
     Some (1, s div 2, (s div 2 + 1) * (band - 1) + 1 + k, s div 2 * (band - 1) + 1 + k)"
  by (simp add: hb2td_coords_def hb2td_task_odd hb2td_block_nonneg Let_def)

lemma hb2td_coords_even:
  "even s \<Longrightarrow> 2 \<le> s \<Longrightarrow>
   hb2td_coords band k s =
     Some (2, s div 2, s div 2 * (band - 1) + 1 + k, s div 2 * (band - 1) + 1 + k)"
  by (simp add: hb2td_coords_def hb2td_task_even hb2td_block_nonneg Let_def)

lemma hb2td_coords_0: "hb2td_coords band k 0 = Some (0, 0, k, k)"
  by (simp add: hb2td_coords_def hb2td_task_def hb2td_block_def)

lemma read_key_even:
  assumes "1 \<le> band" and "even s" and "2 \<le> s" and "hb2td_call n band k s = Some c"
  shows "\<exists>key c'. call_reads c = Some key \<and> hb2td_call n band k (s - 1) = Some c'
           \<and> call_inserts c' = Some key"
proof -
  define B where "B = s div 2"
  have s1: "odd (s - 1)" "1 \<le> s - 1" using assms(2,3) by auto
  have d: "(s - 1) div 2 = B - 1" using assms(2,3) unfolding B_def by presburger
  have inr: "B * (band - 1) + 1 + k < n"
    using assms(4) by (auto simp: hb2td_call_def hb2td_coords_even [OF assms(2,3)] B_def split: if_splits)
  have c: "c = Hebr3 (B * (band - 1) + 1 + k, B * (band - 1) + 1 + k - (band - 1))
                 (B * (band - 1) + 1 + k, min (B * (band - 1) + 1 + k + band - 2) (n - 1))"
    using assms(4) by (auto simp: hb2td_call_def hb2td_coords_even [OF assms(2,3)] B_def split: if_splits)
  have e: "(B - 1) * (band - 1) + 1 + k = B * (band - 1) + 1 + k - (band - 1)"
    by (simp add: algebra_simps)
  have "(B - 1) * (band - 1) + 1 + k < n" using inr assms(1) unfolding e by simp
  then have "\<exists>c'. hb2td_call n band k (s - 1) = Some c'
       \<and> call_inserts c' = Some (B * (band - 1) + 1 + k, B * (band - 1) + 1 + k - (band - 1))"
    using inr by (simp add: hb2td_call_def hb2td_coords_odd [OF s1] d e)
  then show ?thesis using c by auto
qed

lemma read_key_odd:
  assumes "1 \<le> band" and "odd s" and "3 \<le> s" and "hb2td_call n band k s = Some c"
  shows "\<exists>key c'. call_reads c = Some key \<and> hb2td_call n band k (s - 2) = Some c'
           \<and> call_inserts c' = Some key"
proof -
  define B where "B = s div 2"
  have s0: "1 \<le> s" "s \<noteq> 1" using assms(3) by auto
  have s1: "odd (s - 2)" "1 \<le> s - 2" using assms(2,3) by auto
  have d: "(s - 2) div 2 = B - 1" using assms(2,3) unfolding B_def by presburger
  have inr: "(B + 1) * (band - 1) + 1 + k < n" "B * (band - 1) + 1 + k < n"
    using assms(4)
    by (auto simp: hb2td_call_def hb2td_coords_odd [OF assms(2) s0(1)] B_def split: if_splits)
  have c: "call_reads c = Some ((B + 1) * (band - 1) + 1 + k - (band - 1),
                                B * (band - 1) + 1 + k - (band - 1))"
    using assms(4) s0(2)
    by (auto simp: hb2td_call_def hb2td_coords_odd [OF assms(2) s0(1)] B_def split: if_splits)
  have e: "(B - 1) * (band - 1) + 1 + k = B * (band - 1) + 1 + k - (band - 1)"
    "(B - 1 + 1) * (band - 1) + 1 + k = (B + 1) * (band - 1) + 1 + k - (band - 1)"
    by (simp_all add: algebra_simps)
  have "(B - 1) * (band - 1) + 1 + k < n" "(B - 1 + 1) * (band - 1) + 1 + k < n"
    using inr assms(1) unfolding e by simp_all
  then have "\<exists>c'. hb2td_call n band k (s - 2) = Some c'
       \<and> call_inserts c' = Some ((B + 1) * (band - 1) + 1 + k - (band - 1),
                                B * (band - 1) + 1 + k - (band - 1))"
    by (simp add: hb2td_call_def hb2td_coords_odd [OF s1] d e [symmetric])
  then show ?thesis using c by auto
qed

lemma read_key_1:
  assumes "hb2td_call n band k 1 = Some c"
  shows "\<exists>key c' i j. call_reads c = Some key \<and> hb2td_call n band k 0 = Some c'
           \<and> call_inserts c' = Some key
           \<and> hb2td_coords band k 1 = Some (1, 0, i, j) \<and> key = (i - (band - 1), j - 1)"
  using assms
  by (auto simp: hb2td_call_def hb2td_coords_0 hb2td_coords_odd [of 1] split: if_splits)

text \<open>
  C3. Let step \<open>s \<ge> 1\<close> of sweep \<open>k\<close> be in range, for a bandwidth \<open>band \<ge> 1\<close>, and let
  the steps \<open>0, \<dots>, s - 1\<close> of sweep \<open>k\<close> be among the invocations that ran before it
  (interleaved in any way with the steps of other sweeps). Then the key the step reads is
  in the reflector store: it is the key inserted by step \<open>s - 1\<close> when \<open>s\<close> is even, by
  step \<open>s - 2\<close> when \<open>s\<close> is odd and at least 3, and by step 0 when \<open>s = 1\<close>, where it
  is \<open>(i - (band - 1), j - 1)\<close>.
\<close>

theorem reflector_key_already_present:
  assumes "1 \<le> band" and "1 \<le> s"
    and "hb2td_call (A_n A) band k s = Some c"
    and "\<forall>s' \<in> {0..<s}. (k, s') \<in> set calls"
  shows "\<exists>key. call_reads c = Some key
           \<and> key \<in> dom (snd (hb2td_steps K band calls (A, rf)))
           \<and> (even s \<longrightarrow>
                (\<exists>c'. hb2td_call (A_n A) band k (s - 1) = Some c' \<and> call_inserts c' = Some key))
           \<and> (odd s \<and> 3 \<le> s \<longrightarrow>
                (\<exists>c'. hb2td_call (A_n A) band k (s - 2) = Some c' \<and> call_inserts c' = Some key))
           \<and> (s = 1 \<longrightarrow>
                (\<exists>c' i j. hb2td_call (A_n A) band k 0 = Some c' \<and> call_inserts c' = Some key
                   \<and> hb2td_coords band k 1 = Some (1, 0, i, j) \<and> key = (i - (band - 1), j - 1)))"
proof -
  have ins: "key \<in> dom (snd (hb2td_steps K band calls (A, rf)))"
    if "0 \<le> s'" "s' < s" "hb2td_call (A_n A) band k s' = Some c'" "call_inserts c' = Some key"
    for s' c' key
  proof -
    have "(k, s') \<in> set calls" using assms(4) that(1,2) by simp
    then show ?thesis
      using that(3,4) dom_hb2td_steps_inserts [of k s' calls "(A, rf)" band c' key K] by simp
  qed
  have "s = 1 \<or> (even s \<and> 2 \<le> s) \<or> (odd s \<and> 3 \<le> s)"
    using assms(2) by presburger
  then consider (one) "s = 1" | (even) "even s" "2 \<le> s" | (odd) "odd s" "3 \<le> s"
    by blast
  then show ?thesis
  proof cases
    case one
    from read_key_1 [of "A_n A" band k c] assms(3) one
    obtain key c' i j where k: "call_reads c = Some key" "hb2td_call (A_n A) band k 0 = Some c'"
      "call_inserts c' = Some key" "hb2td_coords band k 1 = Some (1, 0, i, j)"
      "key = (i - (band - 1), j - 1)"
      by blast
    have "key \<in> dom (snd (hb2td_steps K band calls (A, rf)))"
      using ins [of 0 c' key] k(2,3) one by simp
    then show ?thesis using k one by auto
  next
    case even
    from read_key_even [OF assms(1) even assms(3)]
    obtain key c' where k: "call_reads c = Some key" "hb2td_call (A_n A) band k (s - 1) = Some c'"
      "call_inserts c' = Some key"
      by blast
    have "key \<in> dom (snd (hb2td_steps K band calls (A, rf)))"
      using ins [of "s - 1" c' key] k(2,3) even by simp
    then show ?thesis using k even by auto
  next
    case odd
    from read_key_odd [OF assms(1) odd assms(3)]
    obtain key c' where k: "call_reads c = Some key" "hb2td_call (A_n A) band k (s - 2) = Some c'"
      "call_inserts c' = Some key"
      by blast
    have "key \<in> dom (snd (hb2td_steps K band calls (A, rf)))"
      using ins [of "s - 2" c' key] k(2,3) odd by simp
    then show ?thesis using k odd by auto
  qed
qed

theorem reflector_key_already_present_witness:
  "hb2td_call 10 3 0 2 = Some (Hebr3 (3, 1) (3, 4))
   \<and> (3, 1) \<in> dom (snd (hb2td_steps example_kernels 3 [(0, 0), (1, 0), (0, 1)]
                          (\<lparr>A_n = 10, A_data = ()\<rparr>, Map.empty)))
   \<and> (\<exists>c'. hb2td_call 10 3 0 1 = Some c' \<and> call_inserts c' = Some (3, 1))"
proof -
  have c: "hb2td_call (A_n \<lparr>A_n = 10, A_data = ()\<rparr>) 3 0 2 = Some (Hebr3 (3, 1) (3, 4))"
    by (simp add: hb2td_call_def hb2td_coords_even)
  have h: "\<forall>s' \<in> {0..<2::int}. (0, s') \<in> set [(0, 0), (1, 0), (0::int, 1::int)]"
  proof
    fix s' :: int assume "s' \<in> {0..<2}"
    then have "s' = 0 \<or> s' = 1" by auto
    then show "(0, s') \<in> set [(0, 0), (1, 0), (0::int, 1::int)]" by auto
  qed
  from reflector_key_already_present [of 3 2 "\<lparr>A_n = 10, A_data = ()\<rparr>" 0
      "Hebr3 (3, 1) (3, 4)" "[(0, 0), (1, 0), (0, 1)]" example_kernels Map.empty, OF _ _ c h]
  show ?thesis using c by simp
qed


text \<open>
  C4. With \<open>band = 1\<close>, on a matrix of order 3 and with one worker, the first transition
  of the worker evaluates \<^verbatim>\<open>ceildiv(diag_len - 1 - pass, band - 1)\<close> with a zero divisor:
  the reduction does not complete.
\<close>

theorem hb2td_band_one_divides_by_zero:
  "hb2td_exec K \<lparr>A_n = 3, A_data = a\<rparr> 1 1 [0] = Inl DivisionByZero"
  by (simp add: hb2td_exec_def hb2td_init_def ceildiv_def ebind_def sys_step_def worker_step_def
      init_worker_def nsteps_def signed_divide_int_def)


section \<open>Properties of \<^verbatim>\<open>unmlq\<close>\<close>

lemma filter_upto_first:
  assumes "filter P [a..b] \<noteq> []"
  shows "a \<le> filter P [a..b] ! 0 \<and> filter P [a..b] ! 0 \<le> b \<and> P (filter P [a..b] ! 0)"
proof -
  have "0 < length (filter P [a..b])" using assms by simp
  then have "filter P [a..b] ! 0 \<in> set (filter P [a..b])"
    by (rule nth_mem)
  then show ?thesis by auto
qed

lemma filter_upto_empty: "(filter P [a..b] = []) = (\<forall>i. a \<le> i \<and> i \<le> b \<longrightarrow> \<not> P i)"
  by (auto simp: filter_empty_conv)






lemma unmlq_right_calls_nonempty: "unmlq_right_calls target op tz cols \<noteq> []"
  by (simp add: unmlq_right_calls_def)

lemma unmlq_left_cases:
  assumes "M_nt V = M_mt C"
  shows "(\<forall>i j. 0 \<le> i \<and> i < M_mt C \<and> 0 \<le> j \<and> j < M_nt C \<longrightarrow> \<not> M_tileIsLocal C i j)
           \<and> unmlq_left target op V T C W
               = Inr \<lparr>u_calls = [], u_W_work = M_tiles W, u_W_tiles = M_tiles W\<rparr>
         \<or> (\<exists>first rows tz.
              0 \<le> first \<and> first < M_mt C
              \<and> (\<exists>j. 0 \<le> j \<and> j < M_nt C \<and> M_tileIsLocal C first j)
              \<and> unmlq_left target op V T C W
                  = Inr \<lparr>u_calls = unmlq_left_calls target op tz rows,
                         u_W_work = insertLocalTiles W first first 0 (M_nt C - 1),
                         u_W_tiles =
                           erase_row W first
                             [0..(if tz then slice_tiles (M_tileNb W) [0..M_nt C - 1]
                                               (extent (M_tileNb C) [0..M_nt C - 1])
                                  else M_nt C) - 1]
                             (insertLocalTiles W first first 0 (M_nt C - 1))\<rparr>)"
proof -
  define P where "P = (\<lambda>i. list_ex (\<lambda>j. M_tileIsLocal C i j) [0..M_nt C - 1])"
  define rows where "rows = filter P [0..M_mt C - 1]"
  have Pj: "P i = (\<exists>j. 0 \<le> j \<and> j < M_nt C \<and> M_tileIsLocal C i j)" for i
    by (auto simp: P_def list_ex_iff)
  show ?thesis
  proof (cases "rows = []")
    case True
    then have "\<forall>i. 0 \<le> i \<and> i \<le> M_mt C - 1 \<longrightarrow> \<not> P i"
      unfolding rows_def by (simp only: filter_upto_empty)
    then have "\<forall>i j. 0 \<le> i \<and> i < M_mt C \<and> 0 \<le> j \<and> j < M_nt C \<longrightarrow> \<not> M_tileIsLocal C i j"
      by (auto simp: Pj)
    moreover have "unmlq_left target op V T C W
               = Inr \<lparr>u_calls = [], u_W_work = M_tiles W, u_W_tiles = M_tiles W\<rparr>"
      using True assms by (simp add: unmlq_left_def Let_def rows_def P_def)
    ultimately show ?thesis by blast
  next
    case False
    then have f: "0 \<le> rows ! 0 \<and> rows ! 0 \<le> M_mt C - 1 \<and> P (rows ! 0)"
      unfolding rows_def by (rule filter_upto_first)
    have l: "\<not> length rows < 1" using False by (cases rows) auto
    define tz where
      "tz = ((if M_tileMb V 0 > M_tileNb V (rows ! 0) then M_tileNb V (rows ! 0)
              else M_tileMb V 0) < M_tileNb V (rows ! 0))"
    have "unmlq_left target op V T C W
            = Inr \<lparr>u_calls = unmlq_left_calls target op tz rows,
                   u_W_work = insertLocalTiles W (rows ! 0) (rows ! 0) 0 (M_nt C - 1),
                   u_W_tiles =
                     erase_row W (rows ! 0)
                       [0..(if tz then slice_tiles (M_tileNb W) [0..M_nt C - 1]
                                         (extent (M_tileNb C) [0..M_nt C - 1])
                            else M_nt C) - 1]
                       (insertLocalTiles W (rows ! 0) (rows ! 0) 0 (M_nt C - 1))\<rparr>"
      using l f assms
      by (simp add: unmlq_left_def Let_def rows_def [symmetric] P_def [symmetric]
          tz_def [symmetric] split del: if_split cong: if_cong)
    moreover have "0 \<le> rows ! 0" "rows ! 0 < M_mt C"
      "\<exists>j. 0 \<le> j \<and> j < M_nt C \<and> M_tileIsLocal C (rows ! 0) j"
      using f by (auto simp: Pj)
    ultimately show ?thesis by blast
  qed
qed

lemma unmlq_right_cases:
  assumes "M_nt V = M_nt C"
  shows "(\<forall>i j. 0 \<le> i \<and> i < M_mt C \<and> 0 \<le> j \<and> j < M_nt C \<longrightarrow> \<not> M_tileIsLocal C i j)
           \<and> unmlq_right target op V T C W
               = Inr \<lparr>u_calls = [], u_W_work = M_tiles W, u_W_tiles = M_tiles W\<rparr>
         \<or> (\<exists>first cols tz.
              0 \<le> first \<and> first < M_nt C
              \<and> (\<exists>i. 0 \<le> i \<and> i < M_mt C \<and> M_tileIsLocal C i first)
              \<and> unmlq_right target op V T C W
                  = Inr \<lparr>u_calls = unmlq_right_calls target op tz cols,
                         u_W_work = insertLocalTiles W 0 (M_mt C - 1) first first,
                         u_W_tiles =
                           erase_col W first
                             [0..(if tz then slice_tiles (M_tileMb W) [0..M_mt C - 1]
                                               (extent (M_tileMb C) [0..M_mt C - 1])
                                  else M_mt C) - 1]
                             (insertLocalTiles W 0 (M_mt C - 1) first first)\<rparr>)"
proof -
  define P where "P = (\<lambda>j. list_ex (\<lambda>i. M_tileIsLocal C i j) [0..M_mt C - 1])"
  define cols where "cols = filter P [0..M_nt C - 1]"
  have Pj: "P j = (\<exists>i. 0 \<le> i \<and> i < M_mt C \<and> M_tileIsLocal C i j)" for j
    by (auto simp: P_def list_ex_iff)
  show ?thesis
  proof (cases "cols = []")
    case True
    then have "\<forall>j. 0 \<le> j \<and> j \<le> M_nt C - 1 \<longrightarrow> \<not> P j"
      unfolding cols_def by (simp only: filter_upto_empty)
    then have "\<forall>i j. 0 \<le> i \<and> i < M_mt C \<and> 0 \<le> j \<and> j < M_nt C \<longrightarrow> \<not> M_tileIsLocal C i j"
      by (auto simp: Pj)
    moreover have "unmlq_right target op V T C W
               = Inr \<lparr>u_calls = [], u_W_work = M_tiles W, u_W_tiles = M_tiles W\<rparr>"
      using True assms by (simp add: unmlq_right_def Let_def cols_def P_def)
    ultimately show ?thesis by blast
  next
    case False
    then have f: "0 \<le> cols ! 0 \<and> cols ! 0 \<le> M_nt C - 1 \<and> P (cols ! 0)"
      unfolding cols_def by (rule filter_upto_first)
    have l: "\<not> length cols < 1" using False by (cases cols) auto
    define tz where
      "tz = ((if M_tileMb V 0 > M_tileNb V (cols ! 0) then M_tileNb V (cols ! 0)
              else M_tileMb V 0) < M_tileNb V (cols ! 0))"
    have "unmlq_right target op V T C W
            = Inr \<lparr>u_calls = unmlq_right_calls target op tz cols,
                   u_W_work = insertLocalTiles W 0 (M_mt C - 1) (cols ! 0) (cols ! 0),
                   u_W_tiles =
                     erase_col W (cols ! 0)
                       [0..(if tz then slice_tiles (M_tileMb W) [0..M_mt C - 1]
                                         (extent (M_tileMb C) [0..M_mt C - 1])
                            else M_mt C) - 1]
                       (insertLocalTiles W 0 (M_mt C - 1) (cols ! 0) (cols ! 0))\<rparr>"
      using l f assms
      by (simp add: unmlq_right_def Let_def cols_def [symmetric] P_def [symmetric]
          tz_def [symmetric] split del: if_split cong: if_cong)
    moreover have "0 \<le> cols ! 0" "cols ! 0 < M_nt C"
      "\<exists>i. 0 \<le> i \<and> i < M_mt C \<and> M_tileIsLocal C i (cols ! 0)"
      using f by (auto simp: Pj)
    ultimately show ?thesis by blast
  qed
qed


lemma length_upto_0: "0 \<le> n \<Longrightarrow> int (length [0..n - 1]) = n"
  by simp

text \<open>
  C5, as amended. \<^verbatim>\<open>unmlq\<close> fails an assertion exactly when one of these is violated:
  \<open>C\<close> has at least one tile row and one tile column; \<open>V\<close> has exactly one tile row, on
  either side; the number of tile columns of \<open>V\<close> is the number of tile rows of \<open>C\<close> in
  the left case and the number of tile columns of \<open>C\<close> in the right case; and the tile
  grid of \<open>W\<close> equals that of \<open>C\<close>.
\<close>

theorem unmlq_asserted_shapes:
  "(unmlq target side op V T C W = Inl AssertionFailed)
     = (\<not> (1 \<le> M_mt C \<and> 1 \<le> M_nt C \<and> M_mt V = 1 \<and> M_mt W = M_mt C \<and> M_nt W = M_nt C
           \<and> M_nt V = (if side = Left then M_mt C else M_nt C)))"
proof (cases "1 \<le> M_mt C \<and> 1 \<le> M_nt C \<and> M_mt V = 1 \<and> M_mt W = M_mt C \<and> M_nt W = M_nt C")
  case False
  then show ?thesis by (auto simp: unmlq_def Let_def)
next
  case True
  show ?thesis
  proof (cases "side = Left")
    case L: True
    show ?thesis
    proof (cases "M_nt V = M_mt C")
      case e: True
      have "unmlq_left target op V T C W \<noteq> Inl AssertionFailed"
        using unmlq_left_cases [OF e, where target = target and op = op and T = T and W = W]
        by auto
      then show ?thesis using True L e by (simp add: unmlq_def Let_def)
    next
      case ne: False
      then show ?thesis using True L by (simp add: unmlq_def unmlq_left_def Let_def)
    qed
  next
    case R: False
    show ?thesis
    proof (cases "M_nt V = M_nt C")
      case e: True
      have "unmlq_right target op V T C W \<noteq> Inl AssertionFailed"
        using unmlq_right_cases [OF e, where target = target and op = op and T = T and W = W]
        by auto
      then show ?thesis using True R e by (simp add: unmlq_def Let_def)
    next
      case ne: False
      then show ?thesis using True R by (simp add: unmlq_def unmlq_right_def Let_def)
    qed
  qed
qed

theorem unmlq_asserted_shapes_witness:
  "unmlq HostTask Right NoTrans (example_matrix 1 2 True) (example_matrix 1 2 True)
      (example_matrix 3 2 True) (example_matrix 3 2 True) \<noteq> Inl AssertionFailed
   \<and> unmlq HostTask Left NoTrans (example_matrix 1 2 True) (example_matrix 1 2 True)
      (example_matrix 3 2 True) (example_matrix 3 2 True) = Inl AssertionFailed"
  using unmlq_asserted_shapes [of HostTask Right NoTrans "example_matrix 1 2 True"
      "example_matrix 1 2 True" "example_matrix 3 2 True" "example_matrix 3 2 True"]
    unmlq_asserted_shapes [of HostTask Left NoTrans "example_matrix 1 2 True"
      "example_matrix 1 2 True" "example_matrix 3 2 True" "example_matrix 3 2 True"]
  by (simp add: example_matrix_def)

text \<open>
  C5, as stated, fails in the right case: a \<open>V\<close> that is one block column of two tiles,
  matching the two tile columns of \<open>C\<close>, satisfies the stated precondition, and the call
  fails the assertion \<^verbatim>\<open>V.mt() == 1\<close>.
\<close>

theorem unmlq_block_column_counterexample:
  "spec_unmlq_precondition Right (example_matrix 2 1 True) (example_matrix 1 2 True)
       (example_matrix 1 2 True)
   \<and> unmlq HostTask Right NoTrans (example_matrix 2 1 True) (example_matrix 2 1 True)
       (example_matrix 1 2 True) (example_matrix 1 2 True) = Inl AssertionFailed"
  by (simp add: spec_unmlq_precondition_def unmlq_def example_matrix_def)

text \<open>
  C6. For every call that passes the shape assertions and in which no tile coordinate of
  \<open>C\<close> is local, \<^verbatim>\<open>unmlq\<close> returns without an error, has issued no kernel or transfer
  on \<open>C\<close>, \<open>V\<close>, \<open>T\<close> or \<open>W\<close>, and has inserted no tile into \<open>W\<close>.
\<close>

theorem unmlq_no_local_tiles_noop:
  assumes "1 \<le> M_mt C" and "1 \<le> M_nt C" and "M_mt V = 1"
    and "M_mt W = M_mt C" and "M_nt W = M_nt C"
    and "M_nt V = (if side = Left then M_mt C else M_nt C)"
    and "\<forall>i j. 0 \<le> i \<and> i < M_mt C \<and> 0 \<le> j \<and> j < M_nt C \<longrightarrow> \<not> M_tileIsLocal C i j"
  shows "unmlq target side op V T C W
           = Inr \<lparr>u_calls = [], u_W_work = M_tiles W, u_W_tiles = M_tiles W\<rparr>"
proof (cases "side = Left")
  case True
  then have e: "M_nt V = M_mt C" using assms(6) by simp
  have "unmlq_left target op V T C W
           = Inr \<lparr>u_calls = [], u_W_work = M_tiles W, u_W_tiles = M_tiles W\<rparr>"
    using unmlq_left_cases [OF e, where target = target and op = op and T = T and W = W]
      assms(7) by blast
  then show ?thesis using True assms(1-5) by (simp add: unmlq_def Let_def)
next
  case False
  then have e: "M_nt V = M_nt C" using assms(6) by simp
  have "unmlq_right target op V T C W
           = Inr \<lparr>u_calls = [], u_W_work = M_tiles W, u_W_tiles = M_tiles W\<rparr>"
    using unmlq_right_cases [OF e, where target = target and op = op and T = T and W = W]
      assms(7) by blast
  then show ?thesis using False assms(1-5) by (simp add: unmlq_def Let_def)
qed

theorem unmlq_no_local_tiles_noop_witness:
  "unmlq Devices Left ConjTrans (example_matrix 1 3 False) (example_matrix 1 3 False)
      (example_matrix 3 2 False) ((example_matrix 3 2 False)\<lparr>M_tiles := {(5, 5)}\<rparr>)
     = Inr \<lparr>u_calls = [], u_W_work = {(5, 5)}, u_W_tiles = {(5, 5)}\<rparr>"
  using unmlq_no_local_tiles_noop [of "example_matrix 3 2 False" "example_matrix 1 3 False"
      "(example_matrix 3 2 False)\<lparr>M_tiles := {(5, 5)}\<rparr>" Left Devices ConjTrans
      "example_matrix 1 3 False"]
  by (simp add: example_matrix_def)










end
